theory Spec2Isabelle
  imports Main "HOL-Library.Word" "HOL-Library.Finite_Map"
begin

section \<open>Outcomes of a call\<close>

text \<open>
  A call of the library either returns, or aborts the process (a failed check, an
  exception nobody catches, a transport error under the default error handler), or
  never returns because it waits for a message that does not come.
\<close>

datatype diag = Msg string | Unexpected_message int int

datatype abort =
    AssertFailed diag
  | VerifyFailed diag
  | LengthError
  | MPI_Error string
  | LockViolation

datatype stop = Abort abort | Blocked

type_synonym 'a outcome = "stop + 'a"

definition seq :: "'a outcome \<Rightarrow> ('a \<Rightarrow> 'b outcome) \<Rightarrow> 'b outcome" where
  "seq r f = (case r of Inl s \<Rightarrow> Inl s | Inr x \<Rightarrow> f x)"

text \<open>
  Modelled from the spec: the macro \<^verbatim>\<open>MFEM_ASSERT\<close> comes from \<^verbatim>\<open>general/error.hpp\<close>,
  which is not among the sources. The spec calls every such check a fatal,
  non-recoverable assertion that aborts the process.
\<close>

definition MFEM_ASSERT :: "bool \<Rightarrow> diag \<Rightarrow> unit outcome" where
  "MFEM_ASSERT c msg = (if c then Inr () else Inl (Abort (AssertFailed msg)))"

text \<open>
  Modelled from the spec: the macro \<^verbatim>\<open>MFEM_VERIFY\<close> comes from \<^verbatim>\<open>general/error.hpp\<close>
  as well, and is a fatal check in the same way.
\<close>

definition MFEM_VERIFY :: "bool \<Rightarrow> diag \<Rightarrow> unit outcome" where
  "MFEM_VERIFY c msg = (if c then Inr () else Inl (Abort (VerifyFailed msg)))"

section \<open>The message transport, seen from one process\<close>

text \<open>
  The MPI library is outside the repository. Its point-to-point interface is modelled by
  the state of one communicator at the calling process: the messages that have arrived
  and are not yet received (in arrival order), the messages still on their way (in the
  order in which they will arrive), the counter of request handles, and the log of the
  calls made so far. A blocking call lets messages arrive until one matches; when none
  ever matches, the call does not return. Ranks are not validated.
\<close>

record envelope =
  source :: int
  tag :: int
  payload :: string

datatype MPI_Request = MPI_REQUEST_NULL | Request nat

datatype mpi_call =
    Isend_call int int string
  | Probe_call int
  | Iprobe_call int
  | Recv_call int int int

record mailbox =
  arrived :: "envelope list"
  in_transit :: "envelope list"
  next_request :: nat
  calls :: "mpi_call list"

record MPI_Status =
  MPI_SOURCE :: int
  MPI_TAG :: int
  byte_count :: int

definition status_of :: "envelope \<Rightarrow> MPI_Status" where
  "status_of e = \<lparr>MPI_SOURCE = source e, MPI_TAG = tag e, byte_count = int (length (payload e))\<rparr>"

definition MPI_Get_count :: "MPI_Status \<Rightarrow> int" where
  "MPI_Get_count st = byte_count st"

fun await :: "(envelope \<Rightarrow> bool) \<Rightarrow> envelope list \<Rightarrow> envelope list
    \<Rightarrow> (envelope \<times> envelope list \<times> envelope list) option" where
  "await P arr tr =
     (case find P arr of
        Some e \<Rightarrow> Some (e, arr, tr)
      | None \<Rightarrow> (case tr of [] \<Rightarrow> None | x # xs \<Rightarrow> await P (arr @ [x]) xs))"

declare await.simps [simp del]

definition logged :: "mpi_call \<Rightarrow> mailbox \<Rightarrow> mailbox" where
  "logged c mb = mb\<lparr>calls := calls mb @ [c]\<rparr>"

definition MPI_Isend :: "string \<Rightarrow> int \<Rightarrow> int \<Rightarrow> int \<Rightarrow> mailbox \<Rightarrow> (MPI_Request \<times> mailbox) outcome" where
  "MPI_Isend buf count dest tg mb =
     (if count < 0 then Inl (Abort (MPI_Error ''MPI_ERR_COUNT''))
      else Inr (Request (next_request mb),
                logged (Isend_call dest tg (take (nat count) buf))
                  (mb\<lparr>next_request := Suc (next_request mb)\<rparr>)))"

definition MPI_Probe :: "int \<Rightarrow> mailbox \<Rightarrow> (MPI_Status \<times> mailbox) outcome" where
  "MPI_Probe tg mb =
     (case await (\<lambda>e. tag e = tg) (arrived mb) (in_transit mb) of
        None \<Rightarrow> Inl Blocked
      | Some (e, arr, tr) \<Rightarrow>
          Inr (status_of e, logged (Probe_call tg) (mb\<lparr>arrived := arr, in_transit := tr\<rparr>)))"

definition MPI_Iprobe :: "int \<Rightarrow> mailbox \<Rightarrow> (MPI_Status option \<times> mailbox) outcome" where
  "MPI_Iprobe tg mb =
     Inr (map_option status_of (find (\<lambda>e. tag e = tg) (arrived mb)), logged (Iprobe_call tg) mb)"

definition MPI_Recv :: "string \<Rightarrow> int \<Rightarrow> int \<Rightarrow> int \<Rightarrow> mailbox
    \<Rightarrow> ((string \<times> MPI_Status) \<times> mailbox) outcome" where
  "MPI_Recv buf count src tg mb =
     (if count < 0 then Inl (Abort (MPI_Error ''MPI_ERR_COUNT''))
      else case await (\<lambda>e. source e = src \<and> tag e = tg) (arrived mb) (in_transit mb) of
        None \<Rightarrow> Inl Blocked
      | Some (e, arr, tr) \<Rightarrow>
          if count < int (length (payload e)) then Inl (Abort (MPI_Error ''MPI_ERR_TRUNCATE''))
          else Inr ((payload e @ drop (length (payload e)) buf, status_of e),
                    logged (Recv_call src tg count)
                      (mb\<lparr>arrived := remove1 e arr, in_transit := tr\<rparr>)))"

section \<open>VarMessage\<close>

text \<open>
  \<^verbatim>\<open>struct VarMessage\<close> has the fields \<^verbatim>\<open>data\<close> and \<^verbatim>\<open>send_request\<close>; the fields of a
  subclass are the extension of the record. What is fixed at compile time for one message
  class is collected in \<open>VarMessage_class\<close>: the template argument \<^verbatim>\<open>Tag\<close>, the virtual
  functions \<^verbatim>\<open>Encode\<close> and \<^verbatim>\<open>Decode\<close>, the default-constructed object, and whether the
  build defines \<^verbatim>\<open>MFEM_DEBUG\<close>.
\<close>

record VarMessage =
  data :: string
  send_request :: MPI_Request

record 'a VarMessage_class =
  Tag :: int
  Encode :: "int \<Rightarrow> 'a VarMessage_scheme \<Rightarrow> 'a VarMessage_scheme"
  Decode :: "int \<Rightarrow> 'a VarMessage_scheme \<Rightarrow> 'a VarMessage_scheme"
  Default :: "'a VarMessage_scheme"
  MFEM_DEBUG :: bool

text \<open>The conversion of a \<^verbatim>\<open>size_t\<close> to \<^verbatim>\<open>int\<close> keeps the low 32 bits, read as signed.\<close>

definition to_int :: "nat \<Rightarrow> int" where
  "to_int n = sint (of_nat n :: 32 word)"

text \<open>
  \<^verbatim>\<open>std::string::resize\<close> with an \<^verbatim>\<open>int\<close> argument: a negative value converts to a
  \<^verbatim>\<open>size_t\<close> beyond \<^verbatim>\<open>max_size()\<close> and \<^verbatim>\<open>std::length_error\<close> is thrown; otherwise the string
  is cut or padded with zero bytes.
\<close>

definition resize :: "int \<Rightarrow> string \<Rightarrow> string outcome" where
  "resize n d =
     (if n < 0 then Inl (Abort LengthError)
      else Inr (take (nat n) d @ replicate (nat n - length d) (CHR 0x00)))"

definition Isend :: "'a VarMessage_class \<Rightarrow> int \<Rightarrow> 'a VarMessage_scheme \<Rightarrow> mailbox
    \<Rightarrow> ('a VarMessage_scheme \<times> mailbox) outcome" where
  "Isend C rank m comm =
     (let m1 = Encode C rank m in
      seq (MPI_Isend (data m1) (to_int (length (data m1))) rank (Tag C) comm)
        (\<lambda>(req, comm'). Inr (m1\<lparr>send_request := req\<rparr>, comm')))"

definition Probe :: "int \<Rightarrow> mailbox \<Rightarrow> (int \<times> int \<times> mailbox) outcome" where
  "Probe tg comm =
     seq (MPI_Probe tg comm)
       (\<lambda>(status, comm'). Inr (MPI_SOURCE status, MPI_Get_count status, comm'))"

text \<open>
  \<^verbatim>\<open>IProbe\<close> writes through the references \<^verbatim>\<open>rank\<close> and \<^verbatim>\<open>size\<close>: the model takes the
  values the caller's variables hold before the call and returns those they hold after.
\<close>

definition IProbe :: "int \<Rightarrow> int \<Rightarrow> int \<Rightarrow> mailbox \<Rightarrow> (bool \<times> int \<times> int \<times> mailbox) outcome" where
  "IProbe tg rank sz comm =
     seq (MPI_Iprobe tg comm)
       (\<lambda>(flag_status, comm').
          case flag_status of
            None \<Rightarrow> Inr (False, rank, sz, comm')
          | Some status \<Rightarrow> Inr (True, MPI_SOURCE status, MPI_Get_count status, comm'))"

definition Recv :: "'a VarMessage_class \<Rightarrow> int \<Rightarrow> int \<Rightarrow> 'a VarMessage_scheme \<Rightarrow> mailbox
    \<Rightarrow> ('a VarMessage_scheme \<times> mailbox) outcome" where
  "Recv C rank sz m comm =
     seq (MFEM_ASSERT (sz \<ge> 0) (Msg ''''))
       (\<lambda>_. seq (resize sz (data m))
       (\<lambda>buf. seq (MPI_Recv buf sz rank (Tag C) comm)
       (\<lambda>((buf', status), comm').
          seq (if MFEM_DEBUG C
               then MFEM_VERIFY (MPI_Get_count status = sz) (Msg '''')
               else Inr ())
       (\<lambda>_. Inr (Decode C rank (m\<lparr>data := buf'\<rparr>), comm')))))"

definition RecvDrop :: "'a VarMessage_class \<Rightarrow> int \<Rightarrow> int \<Rightarrow> 'a VarMessage_scheme \<Rightarrow> mailbox
    \<Rightarrow> ('a VarMessage_scheme \<times> mailbox) outcome" where
  "RecvDrop C rank sz m comm =
     seq (resize sz (data m))
       (\<lambda>buf. seq (MPI_Recv buf sz rank (Tag C) comm)
       (\<lambda>((buf', status), comm').
          seq (resize 0 buf')
       (\<lambda>d. Inr (m\<lparr>data := d\<rparr>, comm'))))"

text \<open>
  \<^verbatim>\<open>rank_msg[rank]\<close> on a \<^verbatim>\<open>std::map\<close>: the entry, inserted default-constructed when the
  key is new.
\<close>

definition map_index :: "'a VarMessage_class \<Rightarrow> (int, 'a VarMessage_scheme) fmap \<Rightarrow> int
    \<Rightarrow> 'a VarMessage_scheme \<times> (int, 'a VarMessage_scheme) fmap" where
  "map_index C rank_msg rank =
     (case fmlookup rank_msg rank of
        Some m \<Rightarrow> (m, rank_msg)
      | None \<Rightarrow> (Default C, fmupd rank (Default C) rank_msg))"

function RecvAll_loop :: "'a VarMessage_class \<Rightarrow> int \<Rightarrow> (int, 'a VarMessage_scheme) fmap \<Rightarrow> mailbox
    \<Rightarrow> ((int, 'a VarMessage_scheme) fmap \<times> mailbox) outcome" where
  "RecvAll_loop C recv_left rank_msg comm =
     (if recv_left > 0 then
        seq (Probe (Tag C) comm)
          (\<lambda>(rank, sz, comm1).
        seq (MFEM_ASSERT (fmlookup rank_msg rank \<noteq> None) (Unexpected_message (Tag C) rank))
          (\<lambda>_. case map_index C rank_msg rank of (m, rank_msg1) \<Rightarrow>
        seq (Recv C rank sz m comm1)
          (\<lambda>(m', comm2). RecvAll_loop C (recv_left - 1) (fmupd rank m' rank_msg1) comm2)))
      else Inr (rank_msg, comm))"
  by pat_completeness auto
termination
  by (relation "measure (\<lambda>(C, recv_left, rank_msg, comm). nat recv_left)") auto

declare RecvAll_loop.simps [simp del]

definition RecvAll :: "'a VarMessage_class \<Rightarrow> (int, 'a VarMessage_scheme) fmap \<Rightarrow> mailbox
    \<Rightarrow> ((int, 'a VarMessage_scheme) fmap \<times> mailbox) outcome" where
  "RecvAll C rank_msg comm = RecvAll_loop C (to_int (fcard (fmdom rank_msg))) rank_msg comm"

definition VarMessage_new :: VarMessage where
  "VarMessage_new = \<lparr>data = [], send_request = MPI_REQUEST_NULL\<rparr>"

definition Clear :: "'a VarMessage_scheme \<Rightarrow> 'a VarMessage_scheme" where
  "Clear m = m\<lparr>data := [], send_request := MPI_REQUEST_NULL\<rparr>"

definition VarMessage_destroy :: "'a VarMessage_scheme \<Rightarrow> unit outcome" where
  "VarMessage_destroy m =
     MFEM_ASSERT (send_request m = MPI_REQUEST_NULL) (Msg ''WaitAllSent was not called after Isend'')"

definition VarMessage_copy :: "'a VarMessage_scheme \<Rightarrow> 'a VarMessage_scheme outcome" where
  "VarMessage_copy other =
     (let this = other\<lparr>data := data other, send_request := send_request other\<rparr> in
      seq (MFEM_ASSERT (send_request this = MPI_REQUEST_NULL)
             (Msg ''Cannot copy message with a pending send.''))
        (\<lambda>_. Inr this))"

text \<open>The base class: \<^verbatim>\<open>Encode\<close> and \<^verbatim>\<open>Decode\<close> do nothing.\<close>

definition VarMessage_base :: "int \<Rightarrow> bool \<Rightarrow> unit VarMessage_class" where
  "VarMessage_base tg dbg =
     \<lparr>Tag = tg, Encode = (\<lambda>rank m. m), Decode = (\<lambda>rank m. m),
      Default = VarMessage_new, MFEM_DEBUG = dbg\<rparr>"

section \<open>GroupTopology\<close>

text \<open>
  \<^verbatim>\<open>MPI_Comm_rank\<close> and \<^verbatim>\<open>MPI_Comm_size\<close> read the two numbers a communicator fixes for
  the calling process.
\<close>

record MPI_Comm =
  comm_rank :: int
  comm_size :: int

text \<open>
  Modelled from the spec: \<^verbatim>\<open>Table\<close> is declared in \<^verbatim>\<open>general/table.hpp\<close>, which is not
  among the sources. The spec describes such a table as a map from a group to an ordered
  list: here the list of its rows, \<^verbatim>\<open>Size()\<close> the number of rows, \<^verbatim>\<open>RowSize(i)\<close> the
  length of row \<open>i\<close>, \<^verbatim>\<open>GetRow(i)\<close> the row.
\<close>

type_synonym Table = "int list list"

record GroupTopology =
  MyComm :: MPI_Comm
  group_lproc :: Table
  groupmaster_lproc :: "int list"
  lproc_proc :: "int list"
  group_mgroup :: "int list"

text \<open>
  Modelled from the spec: \<^verbatim>\<open>Array\<close> is declared in \<^verbatim>\<open>general/array.hpp\<close>, which is not
  among the sources. An \<^verbatim>\<open>Array<int>\<close> is the list of its entries; reading outside its
  bounds has no defined result (\<open>None\<close>).
\<close>

definition Array_at :: "'a list \<Rightarrow> int \<Rightarrow> 'a option" where
  "Array_at xs i = (if 0 \<le> i \<and> i < int (length xs) then Some (xs ! nat i) else None)"

definition MyRank :: "GroupTopology \<Rightarrow> int" where
  "MyRank gt = comm_rank (MyComm gt)"

definition NRanks :: "GroupTopology \<Rightarrow> int" where
  "NRanks gt = comm_size (MyComm gt)"

definition NGroups :: "GroupTopology \<Rightarrow> int" where
  "NGroups gt = int (length (group_lproc gt))"

definition GetNumNeighbors :: "GroupTopology \<Rightarrow> int" where
  "GetNumNeighbors gt = int (length (lproc_proc gt))"

definition GetNeighborRank :: "GroupTopology \<Rightarrow> int \<Rightarrow> int option" where
  "GetNeighborRank gt i = Array_at (lproc_proc gt) i"

definition IAmMaster :: "GroupTopology \<Rightarrow> int \<Rightarrow> bool option" where
  "IAmMaster gt g = map_option (\<lambda>m. m = 0) (Array_at (groupmaster_lproc gt) g)"

definition GetGroupMaster :: "GroupTopology \<Rightarrow> int \<Rightarrow> int option" where
  "GetGroupMaster gt g = Array_at (groupmaster_lproc gt) g"

definition GetGroupMasterRank :: "GroupTopology \<Rightarrow> int \<Rightarrow> int option" where
  "GetGroupMasterRank gt g =
     (case Array_at (groupmaster_lproc gt) g of
        None \<Rightarrow> None
      | Some m \<Rightarrow> Array_at (lproc_proc gt) m)"

definition GetGroupMasterGroup :: "GroupTopology \<Rightarrow> int \<Rightarrow> int option" where
  "GetGroupMasterGroup gt g = Array_at (group_mgroup gt) g"

definition GetGroupSize :: "GroupTopology \<Rightarrow> int \<Rightarrow> int option" where
  "GetGroupSize gt g = map_option (\<lambda>row. int (length row)) (Array_at (group_lproc gt) g)"

definition GetGroup :: "GroupTopology \<Rightarrow> int \<Rightarrow> int list option" where
  "GetGroup gt g = Array_at (group_lproc gt) g"

text \<open>
  Modelled from the spec: a membership set is an unordered set of ranks (the class
  \<^verbatim>\<open>ListOfIntegerSets\<close> of \<^verbatim>\<open>general/sets.hpp\<close> is not among the sources); its
  canonical form lists each rank once, in increasing order.
\<close>

definition canonical :: "int list \<Rightarrow> int list" where
  "canonical s = sort (remdups s)"

text \<open>
  Modelled from the spec: identical sets are deduplicated into one group, and group 0
  is reserved for the singleton of the local process.
\<close>

definition canonical_groups :: "int \<Rightarrow> int list list \<Rightarrow> int list list" where
  "canonical_groups me groups = [me] # remdups (filter (\<lambda>s. s \<noteq> [me]) (map canonical groups))"

text \<open>
  Modelled from the spec: the neighbours are the local process, as neighbour 0, and each
  remote rank that shares a group, once.
\<close>

definition neighbors :: "int \<Rightarrow> int list list \<Rightarrow> int list" where
  "neighbors me gs = me # remdups (filter (\<lambda>r. r \<noteq> me) (concat gs))"

text \<open>
  Modelled from the spec: the local neighbour id of a rank is its position in the table
  of neighbours.
\<close>

definition lproc_of :: "int list \<Rightarrow> int \<Rightarrow> int" where
  "lproc_of nbrs r = int (length (takeWhile (\<lambda>x. x \<noteq> r) nbrs))"

text \<open>
  Modelled from the spec: the body of \<^verbatim>\<open>GroupTopology::Create\<close> is in
  \<^verbatim>\<open>general/communication.cpp\<close>, which is not among the sources. Following the spec, it
  fills the four tables: the members of each canonical group as neighbour ids, the
  neighbour id of each group's elected master, the rank of each neighbour, and each
  group's index in its master's own numbering. The election rule (\<open>elect\<close>) and the
  answer of the exchange with a remote master (\<open>remote\<close>) are parameters: the spec fixes
  neither.
\<close>

definition Create :: "MPI_Comm \<Rightarrow> (int list \<Rightarrow> int) \<Rightarrow> (int \<Rightarrow> int list \<Rightarrow> int)
    \<Rightarrow> int list list \<Rightarrow> GroupTopology" where
  "Create comm elect remote groups =
     (let me = comm_rank comm;
          gs = canonical_groups me groups;
          nbrs = neighbors me gs
      in \<lparr>MyComm = comm,
          group_lproc = map (map (lproc_of nbrs)) gs,
          groupmaster_lproc = map (\<lambda>g. lproc_of nbrs (elect g)) gs,
          lproc_proc = nbrs,
          group_mgroup =
            map (\<lambda>(i, g). if elect g = me then int i else remote (elect g) g) (enumerate 0 gs)\<rparr>)"

text \<open>The election rule the spec gives as its example: the lowest participating rank.\<close>

definition lowest_rank :: "int list \<Rightarrow> int" where
  "lowest_rank g = Min (set g)"

section \<open>GroupCommunicator\<close>

text \<open>
  Of the fields of \<^verbatim>\<open>class GroupCommunicator\<close> the record names the lock,
  \<^verbatim>\<open>int comm_lock; // 0 - no lock, 1 - locked for Bcast, 2 - locked for Reduce\<close>;
  the tables, the buffer, the requests and the memory the caller's arrays live in are the
  extension of the record.
\<close>

record GroupCommunicator =
  comm_lock :: int

text \<open>
  \<^verbatim>\<open>Bcast\<close> and \<^verbatim>\<open>Reduce\<close> are written in the header; the four functions they call are
  only declared there, and are parameters here. \<open>ldata\<close> is the pointer both calls
  receive, and the state holds what it points to.
\<close>

definition Bcast :: "('l \<Rightarrow> int \<Rightarrow> 's \<Rightarrow> 's outcome) \<Rightarrow> ('l \<Rightarrow> int \<Rightarrow> 's \<Rightarrow> 's outcome)
    \<Rightarrow> 'l \<Rightarrow> int \<Rightarrow> 's \<Rightarrow> 's outcome" where
  "Bcast bcast_begin bcast_end ldata layout s =
     seq (bcast_begin ldata layout s) (\<lambda>s1. bcast_end ldata layout s1)"

definition Reduce :: "('l \<Rightarrow> 's \<Rightarrow> 's outcome) \<Rightarrow> ('l \<Rightarrow> int \<Rightarrow> 'op \<Rightarrow> 's \<Rightarrow> 's outcome)
    \<Rightarrow> 'l \<Rightarrow> 'op \<Rightarrow> 's \<Rightarrow> 's outcome" where
  "Reduce reduce_begin reduce_end ldata Op s =
     seq (reduce_begin ldata s) (\<lambda>s1. reduce_end ldata 0 Op s1)"

text \<open>The spec's wording of the wrappers: one call followed by the other.\<close>

definition followed_by :: "('s \<Rightarrow> 's outcome) \<Rightarrow> ('s \<Rightarrow> 's outcome) \<Rightarrow> 's \<Rightarrow> 's outcome" where
  "followed_by first_call second_call s =
     (case first_call s of Inl stopped \<Rightarrow> Inl stopped | Inr s1 \<Rightarrow> second_call s1)"

text \<open>
  Modelled from the spec: the constructor and the bodies of \<^verbatim>\<open>BcastBegin\<close>,
  \<^verbatim>\<open>BcastEnd\<close>, \<^verbatim>\<open>ReduceBegin\<close> and \<^verbatim>\<open>ReduceEnd\<close> are in
  \<^verbatim>\<open>general/communication.cpp\<close>, which is not among the sources. The spec says what
  they do to the lock; what they pack, post, wait for and unpack is left to four
  parameters, which see the whole communicator and may stop the call.
\<close>

record ('l, 'op, 'x) transfers =
  bcast_post :: "'l \<Rightarrow> int \<Rightarrow> 'x GroupCommunicator_scheme \<Rightarrow> 'x GroupCommunicator_scheme outcome"
  bcast_complete :: "'l \<Rightarrow> int \<Rightarrow> 'x GroupCommunicator_scheme \<Rightarrow> 'x GroupCommunicator_scheme outcome"
  reduce_post :: "'l \<Rightarrow> 'x GroupCommunicator_scheme \<Rightarrow> 'x GroupCommunicator_scheme outcome"
  reduce_complete :: "'l \<Rightarrow> int \<Rightarrow> 'op \<Rightarrow> 'x GroupCommunicator_scheme \<Rightarrow> 'x GroupCommunicator_scheme outcome"

text \<open>Modelled from the spec: a new communicator is idle.\<close>

definition GroupCommunicator_new :: "'x \<Rightarrow> 'x GroupCommunicator_scheme" where
  "GroupCommunicator_new rest = \<lparr>comm_lock = 0, \<dots> = rest\<rparr>"

text \<open>
  Modelled from the spec: Begin while an operation is in flight is a fatal usage error;
  otherwise \<^verbatim>\<open>BcastBegin\<close> packs and posts the exchange and takes the lock for a
  broadcast.
\<close>

definition BcastBegin :: "('l, 'op, 'x) transfers \<Rightarrow> 'l \<Rightarrow> int \<Rightarrow> 'x GroupCommunicator_scheme
    \<Rightarrow> 'x GroupCommunicator_scheme outcome" where
  "BcastBegin X ldata layout gc =
     (if comm_lock gc \<noteq> 0 then Inl (Abort LockViolation)
      else seq (bcast_post X ldata layout gc) (\<lambda>gc1. Inr (gc1\<lparr>comm_lock := 1\<rparr>)))"

text \<open>
  Modelled from the spec: \<^verbatim>\<open>BcastEnd\<close> waits for the exchange to complete and unpacks.
  It is the matching End of a broadcast: it returns the lock to idle when the lock is
  held for a broadcast, and no other call does so for a broadcast in flight.
\<close>

definition BcastEnd :: "('l, 'op, 'x) transfers \<Rightarrow> 'l \<Rightarrow> int \<Rightarrow> 'x GroupCommunicator_scheme
    \<Rightarrow> 'x GroupCommunicator_scheme outcome" where
  "BcastEnd X ldata layout gc =
     seq (bcast_complete X ldata layout gc)
       (\<lambda>gc1. Inr (gc1\<lparr>comm_lock := (if comm_lock gc = 1 then 0 else comm_lock gc)\<rparr>))"

text \<open>
  Modelled from the spec: \<^verbatim>\<open>ReduceBegin\<close> is fatal while an operation is in flight;
  otherwise it gathers and posts the exchange and takes the lock for a reduction.
\<close>

definition ReduceBegin :: "('l, 'op, 'x) transfers \<Rightarrow> 'l \<Rightarrow> 'x GroupCommunicator_scheme
    \<Rightarrow> 'x GroupCommunicator_scheme outcome" where
  "ReduceBegin X ldata gc =
     (if comm_lock gc \<noteq> 0 then Inl (Abort LockViolation)
      else seq (reduce_post X ldata gc) (\<lambda>gc1. Inr (gc1\<lparr>comm_lock := 2\<rparr>)))"

text \<open>
  Modelled from the spec: \<^verbatim>\<open>ReduceEnd\<close> waits for the exchange to complete and applies
  the operator. It is the matching End of a reduction: it returns the lock to idle when
  the lock is held for a reduction, and no other call does so for a reduction in flight.
\<close>

definition ReduceEnd :: "('l, 'op, 'x) transfers \<Rightarrow> 'l \<Rightarrow> int \<Rightarrow> 'op \<Rightarrow> 'x GroupCommunicator_scheme
    \<Rightarrow> 'x GroupCommunicator_scheme outcome" where
  "ReduceEnd X ldata layout Op gc =
     seq (reduce_complete X ldata layout Op gc)
       (\<lambda>gc1. Inr (gc1\<lparr>comm_lock := (if comm_lock gc = 2 then 0 else comm_lock gc)\<rparr>))"

text \<open>A caller's sequence of split-phase calls on one communicator.\<close>

datatype ('l, 'op) gc_call =
    Call_BcastBegin 'l int
  | Call_BcastEnd 'l int
  | Call_ReduceBegin 'l
  | Call_ReduceEnd 'l int 'op

fun perform :: "('l, 'op, 'x) transfers \<Rightarrow> ('l, 'op) gc_call \<Rightarrow> 'x GroupCommunicator_scheme
    \<Rightarrow> 'x GroupCommunicator_scheme outcome" where
  "perform X (Call_BcastBegin ldata layout) gc = BcastBegin X ldata layout gc"
| "perform X (Call_BcastEnd ldata layout) gc = BcastEnd X ldata layout gc"
| "perform X (Call_ReduceBegin ldata) gc = ReduceBegin X ldata gc"
| "perform X (Call_ReduceEnd ldata layout Op) gc = ReduceEnd X ldata layout Op gc"

fun perform_all :: "('l, 'op, 'x) transfers \<Rightarrow> ('l, 'op) gc_call list \<Rightarrow> 'x GroupCommunicator_scheme
    \<Rightarrow> 'x GroupCommunicator_scheme outcome" where
  "perform_all X [] gc = Inr gc"
| "perform_all X (c # cs) gc = seq (perform X c gc) (perform_all X cs)"

text \<open>The calls that begin an operation.\<close>

fun is_Begin :: "('l, 'op) gc_call \<Rightarrow> bool" where
  "is_Begin (Call_BcastBegin ldata layout) = True"
| "is_Begin (Call_ReduceBegin ldata) = True"
| "is_Begin (Call_BcastEnd ldata layout) = False"
| "is_Begin (Call_ReduceEnd ldata layout Op) = False"

text \<open>The End that matches a Begin: \<^verbatim>\<open>BcastEnd\<close> for \<^verbatim>\<open>BcastBegin\<close>, \<^verbatim>\<open>ReduceEnd\<close> for \<^verbatim>\<open>ReduceBegin\<close>.\<close>

fun matching_End :: "('l, 'op) gc_call \<Rightarrow> ('l, 'op) gc_call \<Rightarrow> bool" where
  "matching_End (Call_BcastBegin ldata layout) (Call_BcastEnd ldata' layout') = True"
| "matching_End (Call_ReduceBegin ldata) (Call_ReduceEnd ldata' layout' Op) = True"
| "matching_End b c = False"

text \<open>The value of the lock while the operation a Begin started is in flight.\<close>

fun held_for :: "('l, 'op) gc_call \<Rightarrow> int" where
  "held_for (Call_BcastBegin ldata layout) = 1"
| "held_for (Call_ReduceBegin ldata) = 2"
| "held_for (Call_BcastEnd ldata layout) = 0"
| "held_for (Call_ReduceEnd ldata layout Op) = 0"

text \<open>Transfers that move nothing, for running the lock protocol on its own.\<close>

definition no_transfers :: "(unit, unit, unit) transfers" where
  "no_transfers =
     \<lparr>bcast_post = (\<lambda>ldata layout gc. Inr gc), bcast_complete = (\<lambda>ldata layout gc. Inr gc),
      reduce_post = (\<lambda>ldata gc. Inr gc), reduce_complete = (\<lambda>ldata layout Op gc. Inr gc)\<rparr>"

text \<open>
  Notions for stating what a sequence of receives does: the messages available to the
  process, those of one message class, the effect of one accepted message on the
  rank-to-message map, and the two transport calls of one iteration.
\<close>

definition pending :: "mailbox \<Rightarrow> envelope list" where
  "pending comm = arrived comm @ in_transit comm"

definition of_class :: "int \<Rightarrow> mailbox \<Rightarrow> envelope list" where
  "of_class tg comm = filter (\<lambda>e. tag e = tg) (pending comm)"

definition accept :: "'a VarMessage_class \<Rightarrow> (int, 'a VarMessage_scheme) fmap \<Rightarrow> envelope
    \<Rightarrow> (int, 'a VarMessage_scheme) fmap" where
  "accept C rank_msg e =
     (case map_index C rank_msg (source e) of
        (m, rank_msg1) \<Rightarrow> fmupd (source e) (Decode C (source e) (m\<lparr>data := payload e\<rparr>)) rank_msg1)"

definition probe_recv :: "int \<Rightarrow> envelope \<Rightarrow> mpi_call list" where
  "probe_recv tg e = [Probe_call tg, Recv_call (source e) tg (int (length (payload e)))]"

section \<open>Example inputs\<close>

definition example_mailbox :: mailbox where
  "example_mailbox =
     \<lparr>arrived = [\<lparr>source = 4, tag = 9, payload = ''x''\<rparr>, \<lparr>source = 2, tag = 7, payload = ''abc''\<rparr>],
      in_transit = [\<lparr>source = 3, tag = 8, payload = ''hello''\<rparr>],
      next_request = 0, calls = []\<rparr>"

text \<open>A subclass that keeps what it decoded: the length of the last payload.\<close>

record Counted = VarMessage +
  decoded :: nat

definition Counted_class :: "\<lparr>decoded :: nat\<rparr> VarMessage_class" where
  "Counted_class =
     \<lparr>Tag = 7, Encode = (\<lambda>rank m. m), Decode = (\<lambda>rank m. m\<lparr>decoded := length (data m)\<rparr>),
      Default = \<lparr>data = [], send_request = MPI_REQUEST_NULL, decoded = 0\<rparr>, MFEM_DEBUG = True\<rparr>"

text \<open>A message whose send to rank 1 was issued and not yet cleared, and the mailbox then.\<close>

definition pending_message :: VarMessage where
  "pending_message = \<lparr>data = ''ab'', send_request = Request 0\<rparr>"

definition idle_mailbox :: mailbox where
  "idle_mailbox = \<lparr>arrived = [], in_transit = [], next_request = 1, calls = [Isend_call 1 7 ''ab'']\<rparr>"

text \<open>
  Two messages expected, from ranks 1 and 2; rank 1 sends twice before rank 2 sends.
\<close>

definition example_rank_msg :: "(int, VarMessage) fmap" where
  "example_rank_msg = fmupd 1 VarMessage_new (fmupd 2 VarMessage_new fmempty)"

definition twice_mailbox :: mailbox where
  "twice_mailbox =
     \<lparr>arrived = [\<lparr>source = 1, tag = 7, payload = ''a''\<rparr>],
      in_transit = [\<lparr>source = 5, tag = 9, payload = ''zz''\<rparr>, \<lparr>source = 1, tag = 7, payload = ''bc''\<rparr>,
                    \<lparr>source = 2, tag = 7, payload = ''d''\<rparr>],
      next_request = 0, calls = []\<rparr>"

text \<open>A message of the class from rank 3, which is not expected.\<close>

definition stranger_mailbox :: mailbox where
  "stranger_mailbox =
     \<lparr>arrived = [\<lparr>source = 2, tag = 7, payload = ''d''\<rparr>, \<lparr>source = 3, tag = 7, payload = ''x''\<rparr>],
      in_transit = [], next_request = 0, calls = []\<rparr>"

text \<open>
  Rank 1 of 3 shares one item with rank 0 and one with rank 2; the lowest rank of a group
  is its master, and rank 0 reports the shared group as its group 1.
\<close>

definition example_comm :: MPI_Comm where
  "example_comm = \<lparr>comm_rank = 1, comm_size = 3\<rparr>"

definition example_topology :: GroupTopology where
  "example_topology = Create example_comm lowest_rank (\<lambda>master g. 1) [[0, 1], [1, 2], [1, 0]]"

section \<open>The transport: waiting for a match\<close>

lemma find_app: "find P (xs @ ys) = (case find P xs of None \<Rightarrow> find P ys | Some x \<Rightarrow> Some x)"
  by (induction xs) auto

lemma find_Some_mem: "find P xs = Some e \<Longrightarrow> e \<in> set xs \<and> P e"
  by (induction xs) (auto split: if_splits)

lemma await_Some:
  "await P arr tr = Some (e, arr', tr') \<Longrightarrow>
     find P arr' = Some e \<and> arr' @ tr' = arr @ tr \<and> find P (arr @ tr) = Some e"
proof (induction tr arbitrary: arr)
  case Nil
  then show ?case by (auto simp: await.simps split: option.splits)
next
  case (Cons x xs)
  show ?case
  proof (cases "find P arr")
    case None
    with Cons.prems have "await P (arr @ [x]) xs = Some (e, arr', tr')"
      by (simp add: await.simps)
    from Cons.IH[OF this] None show ?thesis by (auto simp: find_app)
  next
    case (Some a)
    with Cons.prems show ?thesis by (auto simp: await.simps find_app)
  qed
qed

lemma await_None: "await P arr tr = None \<longleftrightarrow> find P (arr @ tr) = None"
proof (induction tr arbitrary: arr)
  case Nil
  then show ?case by (auto simp: await.simps split: option.splits)
next
  case (Cons x xs)
  show ?case
  proof (cases "find P arr")
    case None
    then have "await P arr (x # xs) = await P (arr @ [x]) xs" by (simp add: await.simps)
    with Cons.IH[of "arr @ [x]"] show ?thesis by simp
  next
    case (Some a)
    then show ?thesis by (auto simp: await.simps find_app)
  qed
qed

lemma to_int_small: "n < 2 ^ 31 \<Longrightarrow> to_int n = int n"
proof -
  assume n: "n < 2 ^ 31"
  have "(of_nat n :: 32 word) = word_of_int (int n)" by simp
  then have "to_int n = signed_take_bit 31 (int n)"
    unfolding to_int_def by (simp only: sint_sbintrunc') simp
  moreover have "int n < 2 ^ 31" using n by (metis of_nat_less_iff of_nat_numeral of_nat_power)
  ultimately show ?thesis by (simp add: signed_take_bit_int_eq_self)
qed

section \<open>VarMessage: probing\<close>

text \<open>
  Claim C8. \<^verbatim>\<open>IProbe\<close> always returns, never waiting: when no message of the class has
  arrived (from any source) it returns false and the caller's \<open>rank\<close> and \<open>size\<close> keep
  their values; when one has arrived it returns true with the source and the exact byte
  length of the first such message. Messages still in transit play no part, and the
  mailbox is left as it was, up to the log of calls.
\<close>

theorem IProbe_never_blocks:
  "IProbe tg rank sz comm =
     (case find (\<lambda>e. tag e = tg) (arrived comm) of
        None \<Rightarrow> Inr (False, rank, sz, logged (Iprobe_call tg) comm)
      | Some e \<Rightarrow> Inr (True, source e, int (length (payload e)), logged (Iprobe_call tg) comm))"
  by (simp add: IProbe_def MPI_Iprobe_def seq_def status_of_def MPI_Get_count_def
      split: option.splits)

theorem IProbe_never_blocks_witness:
  "IProbe 7 (-1) (-1) example_mailbox = Inr (True, 2, 3, logged (Iprobe_call 7) example_mailbox)
   \<and> IProbe 8 (-1) (-1) example_mailbox = Inr (False, -1, -1, logged (Iprobe_call 8) example_mailbox)"
  using IProbe_never_blocks [of 7 "-1" "-1" example_mailbox]
    IProbe_never_blocks [of 8 "-1" "-1" example_mailbox]
  by (simp add: example_mailbox_def)

section \<open>VarMessage: sending\<close>

text \<open>
  Claim C2, as amended. \<^verbatim>\<open>Isend\<close> makes no check for a pending send: whatever
  \<open>send_request\<close> holds, it encodes, issues the send (the payload length fitting an
  \<^verbatim>\<open>int\<close>) and overwrites \<open>send_request\<close> with the new request.
\<close>

theorem Isend_no_pending_check:
  assumes "length (data (Encode C rank m)) < 2 ^ 31"
  shows "Isend C rank m comm =
     Inr ((Encode C rank m)\<lparr>send_request := Request (next_request comm)\<rparr>,
          logged (Isend_call rank (Tag C) (data (Encode C rank m)))
            (comm\<lparr>next_request := Suc (next_request comm)\<rparr>))"
  using assms by (simp add: Isend_def Let_def MPI_Isend_def seq_def to_int_small)

theorem Isend_no_pending_check_witness:
  "Isend (VarMessage_base 7 True) 1 pending_message idle_mailbox =
     Inr (\<lparr>data = ''ab'', send_request = Request 1\<rparr>,
          \<lparr>arrived = [], in_transit = [], next_request = 2,
           calls = [Isend_call 1 7 ''ab'', Isend_call 1 7 ''ab'']\<rparr>)"
  using Isend_no_pending_check [of "VarMessage_base 7 True" 1 pending_message idle_mailbox]
  by (simp add: VarMessage_base_def pending_message_def idle_mailbox_def logged_def)

text \<open>
  Claim C2 as stated fails: a second \<^verbatim>\<open>Isend\<close> on the same instance, with no
  \<^verbatim>\<open>Clear\<close> in between, returns normally.
\<close>

theorem Isend_pending_counterexample:
  "seq (Isend (VarMessage_base 7 True) 1 \<lparr>data = ''ab'', send_request = MPI_REQUEST_NULL\<rparr>
          \<lparr>arrived = [], in_transit = [], next_request = 0, calls = []\<rparr>)
       (\<lambda>(m, comm). Isend (VarMessage_base 7 True) 1 m comm)
   = Inr (\<lparr>data = ''ab'', send_request = Request 1\<rparr>,
          \<lparr>arrived = [], in_transit = [], next_request = 2,
           calls = [Isend_call 1 7 ''ab'', Isend_call 1 7 ''ab'']\<rparr>)"
  by (simp add: Isend_def Let_def MPI_Isend_def seq_def to_int_def VarMessage_base_def logged_def)

section \<open>VarMessage: the end of a message's life\<close>

text \<open>
  Claim C7. A message whose \<open>send_request\<close> is not \<^verbatim>\<open>MPI_REQUEST_NULL\<close> fails the
  assertion of the destructor and the assertion of the copy constructor; every message
  \<^verbatim>\<open>Isend\<close> returns is in that state; after \<^verbatim>\<open>Clear\<close> the destructor passes.
\<close>

theorem pending_send_fatal:
  "(send_request m \<noteq> MPI_REQUEST_NULL \<longrightarrow>
       VarMessage_destroy m = Inl (Abort (AssertFailed (Msg ''WaitAllSent was not called after Isend'')))
     \<and> VarMessage_copy m = Inl (Abort (AssertFailed (Msg ''Cannot copy message with a pending send.''))))
   \<and> (Isend C rank m0 comm = Inr (m, comm') \<longrightarrow> send_request m \<noteq> MPI_REQUEST_NULL)
   \<and> VarMessage_destroy (Clear m) = Inr ()"
  by (auto simp: VarMessage_destroy_def VarMessage_copy_def MFEM_ASSERT_def seq_def Let_def Clear_def
      Isend_def MPI_Isend_def split: if_splits)

theorem pending_send_fatal_witness:
  "send_request pending_message \<noteq> MPI_REQUEST_NULL
   \<and> VarMessage_destroy pending_message =
       Inl (Abort (AssertFailed (Msg ''WaitAllSent was not called after Isend'')))
   \<and> VarMessage_copy pending_message =
       Inl (Abort (AssertFailed (Msg ''Cannot copy message with a pending send.'')))
   \<and> VarMessage_destroy (Clear pending_message) = Inr ()"
  using pending_send_fatal [where m = pending_message]
  by (simp add: pending_message_def)

section \<open>VarMessage: receiving\<close>

lemma MPI_Recv_Inr:
  "MPI_Recv buf count src tg mb = Inr ((buf', st), mb') \<Longrightarrow>
     calls mb' = calls mb @ [Recv_call src tg count] \<and> next_request mb' = next_request mb"
  by (auto simp: MPI_Recv_def logged_def split: if_splits option.splits)

text \<open>
  Claim C4, as amended. With a message from \<open>rank\<close> of the class available (the first
  such, \<open>e\<close>) and no longer than \<open>size\<close>, \<^verbatim>\<open>Recv\<close> receives it into the \<open>size\<close> bytes of
  \<open>data\<close> and calls \<^verbatim>\<open>Decode\<close>; a received byte count different from \<open>size\<close> is fatal in
  a build with \<^verbatim>\<open>MFEM_DEBUG\<close> and is not looked at in a build without.
\<close>

theorem Recv_count_check:
  assumes "0 \<le> sz"
    and "await (\<lambda>e. source e = rank \<and> tag e = Tag C) (arrived comm) (in_transit comm) = Some (e, arr, tr)"
    and "int (length (payload e)) \<le> sz"
  shows "Recv C rank sz m comm =
     (if MFEM_DEBUG C \<and> int (length (payload e)) \<noteq> sz then Inl (Abort (VerifyFailed (Msg '''')))
      else Inr (Decode C rank
                  (m\<lparr>data := payload e @ drop (length (payload e))
                       (take (nat sz) (data m) @ replicate (nat sz - length (data m)) (CHR 0x00))\<rparr>),
                logged (Recv_call rank (Tag C) sz) (comm\<lparr>arrived := remove1 e arr, in_transit := tr\<rparr>)))"
  using assms
  by (simp add: Recv_def seq_def MFEM_ASSERT_def MFEM_VERIFY_def resize_def MPI_Recv_def
      MPI_Get_count_def status_of_def)

theorem Recv_count_check_witness:
  "Recv (VarMessage_base 7 True) 2 5 VarMessage_new example_mailbox = Inl (Abort (VerifyFailed (Msg '''')))
   \<and> Recv (VarMessage_base 7 True) 2 3 VarMessage_new example_mailbox =
      Inr (\<lparr>data = ''abc'', send_request = MPI_REQUEST_NULL\<rparr>,
          \<lparr>arrived = [\<lparr>source = 4, tag = 9, payload = ''x''\<rparr>],
           in_transit = [\<lparr>source = 3, tag = 8, payload = ''hello''\<rparr>],
           next_request = 0, calls = [Recv_call 2 7 3]\<rparr>)"
proof -
  have a: "await (\<lambda>e. source e = 2 \<and> tag e = Tag (VarMessage_base 7 True))
             (arrived example_mailbox) (in_transit example_mailbox)
    = Some (\<lparr>source = 2, tag = 7, payload = ''abc''\<rparr>, arrived example_mailbox, in_transit example_mailbox)"
    by (simp add: example_mailbox_def await.simps VarMessage_base_def)
  show ?thesis
    using Recv_count_check [OF _ a, of 5 VarMessage_new] Recv_count_check [OF _ a, of 3 VarMessage_new]
    by (simp add: VarMessage_base_def VarMessage_new_def example_mailbox_def logged_def)
qed

text \<open>
  Claim C4 as stated fails: in a build without \<^verbatim>\<open>MFEM_DEBUG\<close>, \<^verbatim>\<open>Recv\<close> asked for 5
  bytes receives the 3 bytes that came and returns.
\<close>

theorem Recv_count_counterexample:
  "Recv (VarMessage_base 7 False) 2 5 VarMessage_new example_mailbox =
     Inr (\<lparr>data = ''abc'' @ [CHR 0x00, CHR 0x00], send_request = MPI_REQUEST_NULL\<rparr>,
          \<lparr>arrived = [\<lparr>source = 4, tag = 9, payload = ''x''\<rparr>],
           in_transit = [\<lparr>source = 3, tag = 8, payload = ''hello''\<rparr>],
           next_request = 0, calls = [Recv_call 2 7 5]\<rparr>)"
  by (simp add: Recv_def seq_def MFEM_ASSERT_def MFEM_VERIFY_def resize_def MPI_Recv_def
      MPI_Get_count_def status_of_def VarMessage_base_def VarMessage_new_def example_mailbox_def
      await.simps logged_def numeral_eq_Suc)

text \<open>
  Claim C10. When \<^verbatim>\<open>RecvDrop\<close> returns, the message is the one it was given with
  \<open>data\<close> empty, the fields of a subclass included, and one receive was made; the result
  does not depend on the \<^verbatim>\<open>Decode\<close> hook; and it does return when a message from
  \<open>rank\<close> of the class, no longer than \<open>size\<close>, is available.
\<close>

theorem RecvDrop_leaves_data_empty:
  "(\<forall>m' comm'. RecvDrop C rank sz m comm = Inr (m', comm') \<longrightarrow>
        m' = m\<lparr>data := []\<rparr> \<and> calls comm' = calls comm @ [Recv_call rank (Tag C) sz])
   \<and> RecvDrop (C\<lparr>Decode := dec\<rparr>) rank sz m comm = RecvDrop C rank sz m comm
   \<and> (0 \<le> sz \<and> int (length (payload e)) \<le> sz
        \<and> await (\<lambda>e. source e = rank \<and> tag e = Tag C) (arrived comm) (in_transit comm) = Some (e, arr, tr)
      \<longrightarrow> RecvDrop C rank sz m comm =
            Inr (m\<lparr>data := []\<rparr>,
                 logged (Recv_call rank (Tag C) sz) (comm\<lparr>arrived := remove1 e arr, in_transit := tr\<rparr>)))"
proof (intro conjI allI impI)
  fix m' comm'
  assume "RecvDrop C rank sz m comm = Inr (m', comm')"
  then show "m' = m\<lparr>data := []\<rparr>"
    by (auto simp: RecvDrop_def seq_def resize_def split: sum.splits if_splits)
next
  fix m' comm'
  assume "RecvDrop C rank sz m comm = Inr (m', comm')"
  then show "calls comm' = calls comm @ [Recv_call rank (Tag C) sz]"
    by (auto simp: RecvDrop_def seq_def resize_def split: sum.splits if_splits dest: MPI_Recv_Inr)
next
  show "RecvDrop (C\<lparr>Decode := dec\<rparr>) rank sz m comm = RecvDrop C rank sz m comm"
    by (simp add: RecvDrop_def)
next
  assume "0 \<le> sz \<and> int (length (payload e)) \<le> sz
        \<and> await (\<lambda>e. source e = rank \<and> tag e = Tag C) (arrived comm) (in_transit comm) = Some (e, arr, tr)"
  then show "RecvDrop C rank sz m comm =
            Inr (m\<lparr>data := []\<rparr>,
                 logged (Recv_call rank (Tag C) sz) (comm\<lparr>arrived := remove1 e arr, in_transit := tr\<rparr>))"
    by (simp add: RecvDrop_def seq_def resize_def MPI_Recv_def)
qed

theorem RecvDrop_leaves_data_empty_witness:
  "RecvDrop Counted_class 2 3 \<lparr>data = ''old'', send_request = MPI_REQUEST_NULL, decoded = 42\<rparr> example_mailbox =
     Inr (\<lparr>data = [], send_request = MPI_REQUEST_NULL, decoded = 42\<rparr>,
          \<lparr>arrived = [\<lparr>source = 4, tag = 9, payload = ''x''\<rparr>],
           in_transit = [\<lparr>source = 3, tag = 8, payload = ''hello''\<rparr>],
           next_request = 0, calls = [Recv_call 2 7 3]\<rparr>)"
proof -
  have a: "0 \<le> (3::int) \<and> int (length (payload \<lparr>source = 2, tag = 7, payload = ''abc''\<rparr>)) \<le> 3 \<and>
    await (\<lambda>e. source e = 2 \<and> tag e = Tag Counted_class)
             (arrived example_mailbox) (in_transit example_mailbox)
    = Some (\<lparr>source = 2, tag = 7, payload = ''abc''\<rparr>, arrived example_mailbox, in_transit example_mailbox)"
    by (simp add: example_mailbox_def await.simps Counted_class_def)
  from RecvDrop_leaves_data_empty [THEN conjunct2, THEN conjunct2, rule_format, OF a]
  show ?thesis
    by (simp add: Counted_class_def example_mailbox_def logged_def)
qed

text \<open>For comparison, \<^verbatim>\<open>Recv\<close> on the same input changes what the subclass decoded.\<close>

lemma Recv_changes_decoded:
  "Recv Counted_class 2 3 \<lparr>data = ''old'', send_request = MPI_REQUEST_NULL, decoded = 42\<rparr> example_mailbox =
     Inr (\<lparr>data = ''abc'', send_request = MPI_REQUEST_NULL, decoded = 3\<rparr>,
          \<lparr>arrived = [\<lparr>source = 4, tag = 9, payload = ''x''\<rparr>],
           in_transit = [\<lparr>source = 3, tag = 8, payload = ''hello''\<rparr>],
           next_request = 0, calls = [Recv_call 2 7 3]\<rparr>)"
  by (simp add: Recv_def seq_def MFEM_ASSERT_def MFEM_VERIFY_def resize_def MPI_Recv_def
      MPI_Get_count_def status_of_def Counted_class_def example_mailbox_def
      await.simps logged_def numeral_eq_Suc)

section \<open>VarMessage: receiving a whole map\<close>

lemma find_refine:
  "find P xs = Some e \<Longrightarrow> Q e \<Longrightarrow> (\<And>x. Q x \<Longrightarrow> P x) \<Longrightarrow> find Q xs = Some e"
  by (induction xs) (auto split: if_splits)

lemma filter_Cons_find: "filter P xs = e # r \<Longrightarrow> find P xs = Some e"
  by (induction xs) (auto split: if_splits)

lemma filter_Nil_find: "filter P xs = [] \<Longrightarrow> find P xs = None"
  by (induction xs) (auto split: if_splits)

lemma Probe_first:
  assumes "find (\<lambda>e. tag e = tg) (pending comm) = Some e"
  shows "\<exists>arr tr. Probe tg comm =
           Inr (source e, int (length (payload e)),
                logged (Probe_call tg) (comm\<lparr>arrived := arr, in_transit := tr\<rparr>))
         \<and> arr @ tr = pending comm \<and> find (\<lambda>e. tag e = tg) arr = Some e"
proof -
  let ?P = "\<lambda>e. tag e = tg"
  from assms have "await ?P (arrived comm) (in_transit comm) \<noteq> None"
    by (simp add: await_None pending_def)
  then obtain e' arr tr where a: "await ?P (arrived comm) (in_transit comm) = Some (e', arr, tr)"
    by (cases "await ?P (arrived comm) (in_transit comm)") auto
  from await_Some [OF a] assms have "e' = e" "arr @ tr = pending comm" "find ?P arr = Some e"
    by (simp_all add: pending_def)
  moreover from a \<open>e' = e\<close> have "Probe tg comm =
      Inr (source e, int (length (payload e)),
           logged (Probe_call tg) (comm\<lparr>arrived := arr, in_transit := tr\<rparr>))"
    by (simp add: Probe_def MPI_Probe_def seq_def status_of_def MPI_Get_count_def)
  ultimately show ?thesis by blast
qed

lemma Probe_none:
  assumes "find (\<lambda>e. tag e = tg) (pending comm) = None"
  shows "Probe tg comm = Inl Blocked"
proof -
  from assms have "await (\<lambda>e. tag e = tg) (arrived comm) (in_transit comm) = None"
    by (simp add: await_None pending_def)
  then show ?thesis by (simp add: Probe_def MPI_Probe_def seq_def)
qed

lemma Recv_probed:
  assumes "find (\<lambda>x. tag x = Tag C) (arrived comm) = Some e"
  shows "Recv C (source e) (int (length (payload e))) m comm =
           Inr (Decode C (source e) (m\<lparr>data := payload e\<rparr>),
                logged (Recv_call (source e) (Tag C) (int (length (payload e))))
                  (comm\<lparr>arrived := remove1 e (arrived comm)\<rparr>))"
proof -
  from assms have "tag e = Tag C" by (auto dest: find_Some_mem)
  with assms have "find (\<lambda>x. source x = source e \<and> tag x = Tag C) (arrived comm) = Some e"
    by (auto intro: find_refine)
  then have "await (\<lambda>x. source x = source e \<and> tag x = Tag C) (arrived comm) (in_transit comm)
      = Some (e, arrived comm, in_transit comm)"
    by (simp add: await.simps)
  then show ?thesis
    by (simp add: Recv_def seq_def MFEM_ASSERT_def MFEM_VERIFY_def resize_def MPI_Recv_def
        MPI_Get_count_def status_of_def)
qed

lemma RecvAll_loop_step:
  assumes "0 < k" and "find (\<lambda>e. tag e = Tag C) (pending comm) = Some e"
    and "source e |\<in>| fmdom rank_msg"
  shows "\<exists>comm2. RecvAll_loop C k rank_msg comm = RecvAll_loop C (k - 1) (accept C rank_msg e) comm2
           \<and> pending comm2 = remove1 e (pending comm)
           \<and> calls comm2 = calls comm @ probe_recv (Tag C) e"
proof -
  from Probe_first [OF assms(2)] obtain arr tr where
    p: "Probe (Tag C) comm = Inr (source e, int (length (payload e)),
          logged (Probe_call (Tag C)) (comm\<lparr>arrived := arr, in_transit := tr\<rparr>))"
    and split: "arr @ tr = pending comm" and first: "find (\<lambda>e. tag e = Tag C) arr = Some e"
    by blast
  let ?comm1 = "logged (Probe_call (Tag C)) (comm\<lparr>arrived := arr, in_transit := tr\<rparr>)"
  from assms(3) obtain m where m: "fmlookup rank_msg (source e) = Some m"
    by (auto simp: fmlookup_dom_iff)
  from first have first1: "find (\<lambda>x. tag x = Tag C) (arrived ?comm1) = Some e"
    by (simp add: logged_def)
  let ?comm2 = "logged (Recv_call (source e) (Tag C) (int (length (payload e))))
                  (?comm1\<lparr>arrived := remove1 e (arrived ?comm1)\<rparr>)"
  have r: "Recv C (source e) (int (length (payload e))) m ?comm1 =
      Inr (Decode C (source e) (m\<lparr>data := payload e\<rparr>), ?comm2)"
    by (rule Recv_probed [OF first1])
  have "RecvAll_loop C k rank_msg comm = RecvAll_loop C (k - 1) (accept C rank_msg e) ?comm2"
    using assms(1) m
    by (subst RecvAll_loop.simps)
       (simp add: p r seq_def MFEM_ASSERT_def map_index_def accept_def)
  moreover from first have "e \<in> set arr" by (auto dest: find_Some_mem)
  then have "remove1 e (arr @ tr) = remove1 e arr @ tr" by (simp add: remove1_append)
  then have "pending ?comm2 = remove1 e (pending comm)"
    unfolding split [symmetric] by (simp add: pending_def logged_def)
  moreover have "calls ?comm2 = calls comm @ probe_recv (Tag C) e"
    by (simp add: logged_def probe_recv_def)
  ultimately show ?thesis by blast
qed

lemma RecvAll_loop_unexpected_first:
  assumes "0 < k" and "find (\<lambda>e. tag e = Tag C) (pending comm) = Some e"
    and "source e |\<notin>| fmdom rank_msg"
  shows "RecvAll_loop C k rank_msg comm =
           Inl (Abort (AssertFailed (Unexpected_message (Tag C) (source e))))"
proof -
  from Probe_first [OF assms(2)] obtain arr tr where
    p: "Probe (Tag C) comm = Inr (source e, int (length (payload e)),
          logged (Probe_call (Tag C)) (comm\<lparr>arrived := arr, in_transit := tr\<rparr>))"
    by blast
  from assms(3) have "fmlookup rank_msg (source e) = None" by (rule fmdom_notD)
  with assms(1) show ?thesis
    by (subst RecvAll_loop.simps) (simp add: p seq_def MFEM_ASSERT_def)
qed

lemma RecvAll_loop_blocked_first:
  assumes "0 < k" and "find (\<lambda>e. tag e = Tag C) (pending comm) = None"
  shows "RecvAll_loop C k rank_msg comm = Inl Blocked"
  using assms(1) by (subst RecvAll_loop.simps) (simp add: Probe_none [OF assms(2)] seq_def)

lemma of_class_step:
  assumes "of_class tg comm = e # ms" and "pending comm2 = remove1 e (pending comm)"
  shows "of_class tg comm2 = ms"
  using assms by (simp add: of_class_def filter_remove1)

lemma fmdom_accept:
  "source e |\<in>| fmdom rank_msg \<Longrightarrow> fmdom (accept C rank_msg e) = fmdom rank_msg"
  by (auto simp: accept_def map_index_def fmlookup_dom_iff split: option.splits)
lemma RecvAll_loop_returns:
  assumes "k \<le> length (of_class (Tag C) comm)"
    and "\<forall>e \<in> set (take k (of_class (Tag C) comm)). source e |\<in>| fmdom rank_msg"
  shows "\<exists>comm'. RecvAll_loop C (int k) rank_msg comm =
             Inr (foldl (accept C) rank_msg (take k (of_class (Tag C) comm)), comm')
           \<and> calls comm' = calls comm @ concat (map (probe_recv (Tag C)) (take k (of_class (Tag C) comm)))
           \<and> pending comm' = foldl (\<lambda>xs e. remove1 e xs) (pending comm) (take k (of_class (Tag C) comm))"
  using assms
proof (induction k arbitrary: rank_msg comm)
  case 0
  then show ?case by (subst RecvAll_loop.simps) simp
next
  case (Suc k)
  from Suc.prems(1) obtain e ms where ms: "of_class (Tag C) comm = e # ms"
    by (cases "of_class (Tag C) comm") auto
  then have first: "find (\<lambda>e. tag e = Tag C) (pending comm) = Some e"
    by (auto simp: of_class_def dest: filter_Cons_find)
  from Suc.prems(2) ms have key: "source e |\<in>| fmdom rank_msg" by simp
  from RecvAll_loop_step [OF _ first key, of "int (Suc k)"] obtain comm2 where
    step: "RecvAll_loop C (int (Suc k)) rank_msg comm = RecvAll_loop C (int k) (accept C rank_msg e) comm2"
    and p2: "pending comm2 = remove1 e (pending comm)"
    and c2: "calls comm2 = calls comm @ probe_recv (Tag C) e"
    by auto
  have ms2: "of_class (Tag C) comm2 = ms" by (rule of_class_step [OF ms p2])
  have "k \<le> length (of_class (Tag C) comm2)" using Suc.prems(1) ms ms2 by simp
  moreover have "\<forall>x \<in> set (take k (of_class (Tag C) comm2)). source x |\<in>| fmdom (accept C rank_msg e)"
    using Suc.prems(2) ms ms2 by (simp add: fmdom_accept [OF key])
  ultimately obtain comm' where
    "RecvAll_loop C (int k) (accept C rank_msg e) comm2 =
       Inr (foldl (accept C) (accept C rank_msg e) (take k ms), comm')"
    "calls comm' = calls comm2 @ concat (map (probe_recv (Tag C)) (take k ms))"
    "pending comm' = foldl (\<lambda>xs e. remove1 e xs) (pending comm2) (take k ms)"
    using Suc.IH [of comm2 "accept C rank_msg e"] ms2 by auto
  with step p2 c2 ms show ?case by simp
qed

lemma RecvAll_loop_unexpected:
  assumes "i < k" and "i < length (of_class (Tag C) comm)"
    and "source (of_class (Tag C) comm ! i) |\<notin>| fmdom rank_msg"
    and "\<forall>j<i. source (of_class (Tag C) comm ! j) |\<in>| fmdom rank_msg"
  shows "RecvAll_loop C (int k) rank_msg comm =
           Inl (Abort (AssertFailed (Unexpected_message (Tag C) (source (of_class (Tag C) comm ! i)))))"
  using assms
proof (induction i arbitrary: k rank_msg comm)
  case 0
  then obtain e ms where ms: "of_class (Tag C) comm = e # ms"
    by (cases "of_class (Tag C) comm") auto
  then have first: "find (\<lambda>e. tag e = Tag C) (pending comm) = Some e"
    by (auto simp: of_class_def dest: filter_Cons_find)
  from "0.prems" ms show ?case
    using RecvAll_loop_unexpected_first [OF _ first, of "int k" rank_msg] by simp
next
  case (Suc i)
  from Suc.prems(2) obtain e ms where ms: "of_class (Tag C) comm = e # ms"
    by (cases "of_class (Tag C) comm") auto
  then have first: "find (\<lambda>e. tag e = Tag C) (pending comm) = Some e"
    by (auto simp: of_class_def dest: filter_Cons_find)
  from Suc.prems(4) ms have key: "source e |\<in>| fmdom rank_msg" by auto
  from Suc.prems(1) obtain k' where k: "k = Suc k'" by (cases k) auto
  from RecvAll_loop_step [OF _ first key, of "int k"] k obtain comm2 where
    step: "RecvAll_loop C (int k) rank_msg comm = RecvAll_loop C (int k') (accept C rank_msg e) comm2"
    and p2: "pending comm2 = remove1 e (pending comm)"
    by auto
  have ms2: "of_class (Tag C) comm2 = ms" by (rule of_class_step [OF ms p2])
  have "i < k'" using Suc.prems(1) k by simp
  moreover have "i < length (of_class (Tag C) comm2)" using Suc.prems(2) ms ms2 by simp
  moreover have "source (of_class (Tag C) comm2 ! i) |\<notin>| fmdom (accept C rank_msg e)"
    using Suc.prems(3) ms ms2 by (simp add: fmdom_accept [OF key])
  moreover have "\<forall>j<i. source (of_class (Tag C) comm2 ! j) |\<in>| fmdom (accept C rank_msg e)"
    using Suc.prems(4) ms ms2 by (auto simp: fmdom_accept [OF key])
  ultimately have "RecvAll_loop C (int k') (accept C rank_msg e) comm2 =
      Inl (Abort (AssertFailed (Unexpected_message (Tag C) (source (of_class (Tag C) comm2 ! i)))))"
    by (rule Suc.IH)
  with step ms ms2 show ?case by simp
qed

lemma RecvAll_loop_blocks:
  assumes "length (of_class (Tag C) comm) < k"
    and "\<forall>e \<in> set (of_class (Tag C) comm). source e |\<in>| fmdom rank_msg"
  shows "RecvAll_loop C (int k) rank_msg comm = Inl Blocked"
  using assms
proof (induction k arbitrary: rank_msg comm)
  case 0
  then show ?case by simp
next
  case (Suc k)
  show ?case
  proof (cases "of_class (Tag C) comm")
    case Nil
    then have "find (\<lambda>e. tag e = Tag C) (pending comm) = None"
      by (auto simp: of_class_def dest: filter_Nil_find)
    then show ?thesis
      using RecvAll_loop_blocked_first [of "int (Suc k)" C comm rank_msg] by simp
  next
    case (Cons e ms)
    then have first: "find (\<lambda>e. tag e = Tag C) (pending comm) = Some e"
      by (auto simp: of_class_def dest: filter_Cons_find)
    from Suc.prems(2) Cons have key: "source e |\<in>| fmdom rank_msg" by simp
    from RecvAll_loop_step [OF _ first key, of "int (Suc k)"] obtain comm2 where
      step: "RecvAll_loop C (int (Suc k)) rank_msg comm = RecvAll_loop C (int k) (accept C rank_msg e) comm2"
      and p2: "pending comm2 = remove1 e (pending comm)"
      by auto
    have ms2: "of_class (Tag C) comm2 = ms" by (rule of_class_step [OF Cons p2])
    have "length (of_class (Tag C) comm2) < k" using Suc.prems(1) Cons ms2 by simp
    moreover have "\<forall>x \<in> set (of_class (Tag C) comm2). source x |\<in>| fmdom (accept C rank_msg e)"
      using Suc.prems(2) Cons ms2 by (simp add: fmdom_accept [OF key])
    ultimately have "RecvAll_loop C (int k) (accept C rank_msg e) comm2 = Inl Blocked"
      by (rule Suc.IH)
    with step show ?thesis by simp
  qed
qed

lemma first_stranger:
  assumes "\<exists>e \<in> set (take n ms). \<not> K e"
  shows "\<exists>i. i < n \<and> i < length ms \<and> \<not> K (ms ! i) \<and> (\<forall>j<i. K (ms ! j))"
proof -
  from assms obtain k where k: "k < length (take n ms)" "\<not> K (take n ms ! k)"
    by (auto simp: in_set_conv_nth)
  then have ex: "\<exists>i. i < n \<and> i < length ms \<and> \<not> K (ms ! i)" by auto
  define i where "i = (LEAST i. i < n \<and> i < length ms \<and> \<not> K (ms ! i))"
  from ex have i: "i < n \<and> i < length ms \<and> \<not> K (ms ! i)"
    unfolding i_def by (rule LeastI_ex)
  have "\<forall>j<i. K (ms ! j)"
  proof (intro allI impI)
    fix j assume "j < i"
    with i have "j < n" "j < length ms" by auto
    show "K (ms ! j)"
    proof (rule ccontr)
      assume "\<not> K (ms ! j)"
      with \<open>j < n\<close> \<open>j < length ms\<close> have "i \<le> j" unfolding i_def by (intro Least_le) simp
      with \<open>j < i\<close> show False by simp
    qed
  qed
  with i show ?thesis by blast
qed

lemma RecvAll_returns_only_if:
  assumes "n = fcard (fmdom rank_msg)" and "n < 2 ^ 31" and "ms = of_class (Tag C) comm"
    and "RecvAll C rank_msg comm = Inr (rank_msg', comm')"
  shows "n \<le> length ms \<and> (\<forall>e \<in> set (take n ms). source e |\<in>| fmdom rank_msg)"
proof -
  have loop: "RecvAll C rank_msg comm = RecvAll_loop C (int n) rank_msg comm"
    using assms(1,2) by (simp add: RecvAll_def to_int_small)
  have keys: "\<forall>e \<in> set (take n ms). source e |\<in>| fmdom rank_msg"
  proof (rule ccontr)
    assume "\<not> ?thesis"
    then have "\<exists>e \<in> set (take n ms). \<not> source e |\<in>| fmdom rank_msg" by simp
    from first_stranger [OF this] obtain i where
      "i < n" "i < length ms" "source (ms ! i) |\<notin>| fmdom rank_msg"
      "\<forall>j<i. source (ms ! j) |\<in>| fmdom rank_msg"
      by blast
    then have "RecvAll_loop C (int n) rank_msg comm =
        Inl (Abort (AssertFailed (Unexpected_message (Tag C) (source (of_class (Tag C) comm ! i)))))"
      unfolding assms(3) by (rule RecvAll_loop_unexpected)
    with assms(4) loop show False by simp
  qed
  have "n \<le> length ms"
  proof (rule ccontr)
    assume "\<not> ?thesis"
    then have short: "length ms < n" by simp
    with keys have "\<forall>e \<in> set ms. source e |\<in>| fmdom rank_msg" by simp
    with short have "RecvAll_loop C (int n) rank_msg comm = Inl Blocked"
      unfolding assms(3) by (rule RecvAll_loop_blocks)
    with assms(4) loop show False by simp
  qed
  with keys show ?thesis by simp
qed

text \<open>
  Claim C6. Let \<open>n\<close> be the size of the map (within the range of \<^verbatim>\<open>int\<close>) and \<open>ms\<close> the
  messages of the class available to the process, in arrival order. If the first \<open>n\<close> of
  them exist and come from keys of the map, \<^verbatim>\<open>RecvAll\<close> returns after exactly \<open>n\<close>
  iterations, each one \<^verbatim>\<open>Probe\<close> and one \<^verbatim>\<open>Recv\<close>, having taken exactly those \<open>n\<close>
  messages and stored each under its source, a later one from the same source replacing
  an earlier one: sources need not be distinct. If one of the first \<open>n\<close> comes from a
  rank that is not a key, the assertion fails at the first such message. If fewer than
  \<open>n\<close> are available, all from keys, \<^verbatim>\<open>RecvAll\<close> does not return. So it returns only
  in the first case.
\<close>

theorem RecvAll_iterations:
  assumes "n = fcard (fmdom rank_msg)" and "n < 2 ^ 31" and "ms = of_class (Tag C) comm"
  shows "(n \<le> length ms \<and> (\<forall>e \<in> set (take n ms). source e |\<in>| fmdom rank_msg) \<longrightarrow>
            (\<exists>comm'. RecvAll C rank_msg comm = Inr (foldl (accept C) rank_msg (take n ms), comm')
               \<and> calls comm' = calls comm @ concat (map (probe_recv (Tag C)) (take n ms))
               \<and> pending comm' = foldl (\<lambda>xs e. remove1 e xs) (pending comm) (take n ms)))
       \<and> (\<forall>i. i < n \<and> i < length ms \<and> source (ms ! i) |\<notin>| fmdom rank_msg
               \<and> (\<forall>j<i. source (ms ! j) |\<in>| fmdom rank_msg) \<longrightarrow>
            RecvAll C rank_msg comm =
              Inl (Abort (AssertFailed (Unexpected_message (Tag C) (source (ms ! i))))))
       \<and> (length ms < n \<and> (\<forall>e \<in> set ms. source e |\<in>| fmdom rank_msg) \<longrightarrow>
            RecvAll C rank_msg comm = Inl Blocked)
       \<and> (\<forall>rank_msg' comm'. RecvAll C rank_msg comm = Inr (rank_msg', comm') \<longrightarrow>
            n \<le> length ms \<and> (\<forall>e \<in> set (take n ms). source e |\<in>| fmdom rank_msg))"
proof -
  have loop: "RecvAll C rank_msg comm = RecvAll_loop C (int n) rank_msg comm"
    using assms(1,2) by (simp add: RecvAll_def to_int_small)
  have "\<forall>rank_msg' comm'. RecvAll C rank_msg comm = Inr (rank_msg', comm') \<longrightarrow>
      n \<le> length ms \<and> (\<forall>e \<in> set (take n ms). source e |\<in>| fmdom rank_msg)"
    using RecvAll_returns_only_if [OF assms] by blast
  moreover have "n \<le> length ms \<and> (\<forall>e \<in> set (take n ms). source e |\<in>| fmdom rank_msg) \<longrightarrow>
      (\<exists>comm'. RecvAll C rank_msg comm = Inr (foldl (accept C) rank_msg (take n ms), comm')
         \<and> calls comm' = calls comm @ concat (map (probe_recv (Tag C)) (take n ms))
         \<and> pending comm' = foldl (\<lambda>xs e. remove1 e xs) (pending comm) (take n ms))"
    unfolding loop assms(3) using RecvAll_loop_returns [of n C comm rank_msg] by blast
  moreover have "\<forall>i. i < n \<and> i < length ms \<and> source (ms ! i) |\<notin>| fmdom rank_msg
         \<and> (\<forall>j<i. source (ms ! j) |\<in>| fmdom rank_msg) \<longrightarrow>
      RecvAll C rank_msg comm = Inl (Abort (AssertFailed (Unexpected_message (Tag C) (source (ms ! i)))))"
    unfolding loop assms(3) using RecvAll_loop_unexpected [of _ n C comm rank_msg] by blast
  moreover have "length ms < n \<and> (\<forall>e \<in> set ms. source e |\<in>| fmdom rank_msg) \<longrightarrow>
      RecvAll C rank_msg comm = Inl Blocked"
    unfolding loop assms(3) using RecvAll_loop_blocks [of C comm n rank_msg] by blast
  ultimately show ?thesis by blast
qed
lemma example_rank_msg_size: "fcard (fmdom example_rank_msg) = 2"
  by (simp add: example_rank_msg_def fcard_finsert_if)

theorem RecvAll_iterations_witness:
  "(\<exists>comm'. RecvAll (VarMessage_base 7 True) example_rank_msg twice_mailbox =
        Inr (fmupd 1 \<lparr>data = ''bc'', send_request = MPI_REQUEST_NULL\<rparr> example_rank_msg, comm')
      \<and> calls comm' = [Probe_call 7, Recv_call 1 7 1, Probe_call 7, Recv_call 1 7 2]
      \<and> pending comm' = [\<lparr>source = 5, tag = 9, payload = ''zz''\<rparr>, \<lparr>source = 2, tag = 7, payload = ''d''\<rparr>])
   \<and> RecvAll (VarMessage_base 7 True) example_rank_msg stranger_mailbox =
        Inl (Abort (AssertFailed (Unexpected_message 7 3)))
   \<and> RecvAll (VarMessage_base 7 True) example_rank_msg example_mailbox = Inl Blocked"
proof -
  have tg: "Tag (VarMessage_base 7 True) = 7" by (simp add: VarMessage_base_def)
  have ms1: "of_class 7 twice_mailbox =
      [\<lparr>source = 1, tag = 7, payload = ''a''\<rparr>, \<lparr>source = 1, tag = 7, payload = ''bc''\<rparr>,
       \<lparr>source = 2, tag = 7, payload = ''d''\<rparr>]"
    by (simp add: of_class_def pending_def twice_mailbox_def)
  have ms2: "of_class 7 stranger_mailbox =
      [\<lparr>source = 2, tag = 7, payload = ''d''\<rparr>, \<lparr>source = 3, tag = 7, payload = ''x''\<rparr>]"
    by (simp add: of_class_def pending_def stranger_mailbox_def)
  have ms3: "of_class 7 example_mailbox = [\<lparr>source = 2, tag = 7, payload = ''abc''\<rparr>]"
    by (simp add: of_class_def pending_def example_mailbox_def)
  have dom: "fmdom example_rank_msg = {|1, 2|}" by (simp add: example_rank_msg_def)
  have acc: "accept (VarMessage_base 7 True)
               (accept (VarMessage_base 7 True) example_rank_msg \<lparr>source = 1, tag = 7, payload = ''a''\<rparr>)
               \<lparr>source = 1, tag = 7, payload = ''bc''\<rparr>
             = fmupd 1 \<lparr>data = ''bc'', send_request = MPI_REQUEST_NULL\<rparr> example_rank_msg"
    by (simp add: accept_def map_index_def example_rank_msg_def VarMessage_base_def VarMessage_new_def)
  have two: "(2::nat) < 2 ^ 31" by simp
  note r1 = RecvAll_iterations [OF example_rank_msg_size [symmetric] two, of _ "VarMessage_base 7 True" twice_mailbox,
      unfolded tg, OF ms1 [symmetric], THEN conjunct1, rule_format]
  note r2 = RecvAll_iterations [OF example_rank_msg_size [symmetric] two, of _ "VarMessage_base 7 True" stranger_mailbox,
      unfolded tg, OF ms2 [symmetric], THEN conjunct2, THEN conjunct1, rule_format, of 1]
  note r3 = RecvAll_iterations [OF example_rank_msg_size [symmetric] two, of _ "VarMessage_base 7 True" example_mailbox,
      unfolded tg, OF ms3 [symmetric], THEN conjunct2, THEN conjunct2, THEN conjunct1, rule_format]
  have "\<exists>comm'. RecvAll (VarMessage_base 7 True) example_rank_msg twice_mailbox =
        Inr (fmupd 1 \<lparr>data = ''bc'', send_request = MPI_REQUEST_NULL\<rparr> example_rank_msg, comm')
      \<and> calls comm' = [Probe_call 7, Recv_call 1 7 1, Probe_call 7, Recv_call 1 7 2]
      \<and> pending comm' = [\<lparr>source = 5, tag = 9, payload = ''zz''\<rparr>, \<lparr>source = 2, tag = 7, payload = ''d''\<rparr>]"
    using r1 by (simp add: dom acc probe_recv_def pending_def twice_mailbox_def)
  moreover have "RecvAll (VarMessage_base 7 True) example_rank_msg stranger_mailbox =
        Inl (Abort (AssertFailed (Unexpected_message 7 3)))"
    using r2 by (simp add: dom less_Suc_eq)
  moreover have "RecvAll (VarMessage_base 7 True) example_rank_msg example_mailbox = Inl Blocked"
    using r3 by (simp add: dom)
  ultimately show ?thesis by blast
qed

section \<open>GroupTopology: group 0 and mastery\<close>

lemma Array_at_distinct:
  assumes "distinct xs" and "Array_at xs i = Some r" and "Array_at xs j = Some r"
  shows "i = j"
proof -
  from assms(2,3) have i: "0 \<le> i" "nat i < length xs" "xs ! nat i = r"
    and j: "0 \<le> j" "nat j < length xs" "xs ! nat j = r"
    by (auto simp: Array_at_def split: if_splits)
  from i(3) j(3) have "xs ! nat i = xs ! nat j" by simp
  with assms(1) i(2) j(2) have "nat i = nat j" by (simp add: nth_eq_iff_index_eq)
  with i(1) j(1) show ?thesis by simp
qed

lemma Create_neighbors:
  "distinct (lproc_proc (Create comm elect remote groups))
   \<and> GetNeighborRank (Create comm elect remote groups) 0 = Some (MyRank (Create comm elect remote groups))"
  by (simp add: Create_def Let_def neighbors_def GetNeighborRank_def MyRank_def Array_at_def)

text \<open>
  Claim C9. In a topology whose neighbour-rank table has no repeated entry and has the
  local rank as entry 0, \<^verbatim>\<open>IAmMaster(g)\<close> is true exactly when
  \<^verbatim>\<open>GetGroupMasterRank(g)\<close> is \<^verbatim>\<open>MyRank()\<close>, for every \<open>g\<close>.
\<close>

theorem IAmMaster_iff_master_rank:
  assumes "distinct (lproc_proc gt)" and "GetNeighborRank gt 0 = Some (MyRank gt)"
  shows "IAmMaster gt g = Some True \<longleftrightarrow> GetGroupMasterRank gt g = Some (MyRank gt)"
proof (cases "Array_at (groupmaster_lproc gt) g")
  case None
  then show ?thesis by (simp add: IAmMaster_def GetGroupMasterRank_def)
next
  case (Some m)
  have "m = 0 \<longleftrightarrow> Array_at (lproc_proc gt) m = Some (MyRank gt)"
  proof
    assume "m = 0"
    with assms(2) show "Array_at (lproc_proc gt) m = Some (MyRank gt)"
      by (simp add: GetNeighborRank_def)
  next
    assume "Array_at (lproc_proc gt) m = Some (MyRank gt)"
    with assms show "m = 0"
      by (auto simp: GetNeighborRank_def intro: Array_at_distinct)
  qed
  with Some show ?thesis by (simp add: IAmMaster_def GetGroupMasterRank_def)
qed

lemma example_topology_eq:
  "example_topology =
     \<lparr>MyComm = example_comm, group_lproc = [[0], [0, 1], [2, 0]], groupmaster_lproc = [0, 0, 2],
      lproc_proc = [1, 2, 0], group_mgroup = [0, 1, 1]\<rparr>"
  by (simp add: example_topology_def Create_def Let_def example_comm_def canonical_groups_def
      canonical_def neighbors_def lproc_of_def lowest_rank_def enumerate_eq_zip upt_rec)

theorem IAmMaster_iff_master_rank_witness:
  "distinct (lproc_proc example_topology)
   \<and> GetNeighborRank example_topology 0 = Some (MyRank example_topology)
   \<and> IAmMaster example_topology 1 = Some True
   \<and> GetGroupMasterRank example_topology 1 = Some (MyRank example_topology)
   \<and> IAmMaster example_topology 2 = Some False
   \<and> GetGroupMasterRank example_topology 2 = Some 0"
proof -
  have d: "distinct (lproc_proc example_topology)" by (simp add: example_topology_eq)
  have n: "GetNeighborRank example_topology 0 = Some (MyRank example_topology)"
    by (simp add: example_topology_eq GetNeighborRank_def MyRank_def Array_at_def example_comm_def)
  have m1: "IAmMaster example_topology 1 = Some True"
    by (simp add: example_topology_eq IAmMaster_def Array_at_def)
  from IAmMaster_iff_master_rank [OF d n, of 1] m1
  have "GetGroupMasterRank example_topology 1 = Some (MyRank example_topology)" by simp
  moreover have "IAmMaster example_topology 2 = Some False"
    by (simp add: example_topology_eq IAmMaster_def Array_at_def)
  moreover have "GetGroupMasterRank example_topology 2 = Some 0"
    by (simp add: example_topology_eq GetGroupMasterRank_def Array_at_def)
  ultimately show ?thesis using d n m1 by simp
qed

text \<open>
  Claim C3. After \<^verbatim>\<open>Create\<close>, with an election that picks a member of the group: group
  0 has size 1 and consists of neighbour 0, its master is neighbour 0, so the local
  process is its master, and neighbour 0 is the local rank.
\<close>

theorem Create_group_0:
  assumes "\<forall>g. g \<noteq> [] \<longrightarrow> elect g \<in> set g"
    and "gt = Create comm elect remote groups"
  shows "GetGroupSize gt 0 = Some 1 \<and> GetGroup gt 0 = Some [0] \<and> GetGroupMaster gt 0 = Some 0
         \<and> IAmMaster gt 0 = Some True \<and> GetNeighborRank gt 0 = Some (MyRank gt)"
proof -
  from assms(1) have "elect [comm_rank comm] \<in> set [comm_rank comm]" by blast
  then have e: "elect [comm_rank comm] = comm_rank comm" by simp
  show ?thesis
    unfolding assms(2)
    by (simp add: Create_def Let_def canonical_groups_def neighbors_def lproc_of_def e
        GetGroupSize_def GetGroup_def GetGroupMaster_def IAmMaster_def GetNeighborRank_def
        MyRank_def Array_at_def)
qed

theorem Create_group_0_witness:
  "GetGroupSize example_topology 0 = Some 1 \<and> GetGroup example_topology 0 = Some [0]
   \<and> GetGroupMaster example_topology 0 = Some 0 \<and> IAmMaster example_topology 0 = Some True
   \<and> GetNeighborRank example_topology 0 = Some 1 \<and> MyRank example_topology = 1"
proof -
  have "\<forall>g. g \<noteq> [] \<longrightarrow> lowest_rank g \<in> set g"
    by (simp add: lowest_rank_def)
  from Create_group_0 [OF this example_topology_def]
  show ?thesis by (simp add: example_topology_eq MyRank_def example_comm_def)
qed

section \<open>GroupCommunicator: the lock and the fused calls\<close>

lemma perform_lock:
  "comm_lock gc \<in> {0, 1, 2} \<Longrightarrow> perform X c gc = Inr gc' \<Longrightarrow> comm_lock gc' \<in> {0, 1, 2}"
  by (cases c)
     (auto simp: BcastBegin_def BcastEnd_def ReduceBegin_def ReduceEnd_def seq_def
       split: if_splits sum.splits)

lemma perform_all_lock:
  "comm_lock gc \<in> {0, 1, 2} \<Longrightarrow> perform_all X cs gc = Inr gc' \<Longrightarrow> comm_lock gc' \<in> {0, 1, 2}"
proof (induction cs arbitrary: gc)
  case Nil
  then show ?case by simp
next
  case (Cons c cs)
  from Cons.prems(2) obtain gc1 where 1: "perform X c gc = Inr gc1"
    and 2: "perform_all X cs gc1 = Inr gc'"
    by (auto simp: seq_def split: sum.splits)
  from perform_lock [OF Cons.prems(1) 1] 2 show ?case by (rule Cons.IH)
qed

lemma perform_all_append:
  "perform_all X (cs @ ds) gc = seq (perform_all X cs gc) (perform_all X ds)"
  by (induction cs arbitrary: gc) (auto simp: seq_def split: sum.splits)

lemma Begin_needs_idle:
  "is_Begin b \<Longrightarrow> comm_lock gc \<noteq> 0 \<Longrightarrow> perform X b gc = Inl (Abort LockViolation)"
  by (cases b) (auto simp: BcastBegin_def ReduceBegin_def)

text \<open>
  Once a Begin has returned, the lock is held for its operation, and it stays held
  through any calls that return, as long as none of them is the matching End.
\<close>

lemma Begin_takes_lock:
  "is_Begin b \<Longrightarrow> perform X b gc = Inr gc' \<Longrightarrow> comm_lock gc' = held_for b \<and> held_for b \<noteq> 0"
  by (cases b)
     (auto simp: BcastBegin_def ReduceBegin_def seq_def split: if_splits sum.splits)

lemma lock_kept_by_one:
  assumes "is_Begin b" and "comm_lock gc = held_for b" and "\<not> matching_End b c"
    and "perform X c gc = Inr gc'"
  shows "comm_lock gc' = held_for b"
  using assms
  by (cases b; cases c)
     (auto simp: BcastBegin_def ReduceBegin_def BcastEnd_def ReduceEnd_def seq_def
       split: if_splits sum.splits)

lemma lock_kept:
  assumes "is_Begin b" and "comm_lock gc = held_for b" and "\<forall>c \<in> set cs. \<not> matching_End b c"
    and "perform_all X cs gc = Inr gc'"
  shows "comm_lock gc' = held_for b"
  using assms(2-)
proof (induction cs arbitrary: gc)
  case Nil
  then show ?case by simp
next
  case (Cons c cs)
  from Cons.prems(3) obtain gc1 where 1: "perform X c gc = Inr gc1"
    and 2: "perform_all X cs gc1 = Inr gc'"
    by (auto simp: seq_def split: sum.splits)
  from Cons.prems(2) have "\<not> matching_End b c" by simp
  from lock_kept_by_one [OF assms(1) Cons.prems(1) this 1] have "comm_lock gc1 = held_for b" .
  moreover from Cons.prems(2) have "\<forall>c \<in> set cs. \<not> matching_End b c" by simp
  ultimately show ?case using 2 by (rule Cons.IH)
qed

lemma Begin_in_flight:
  assumes "is_Begin b" and "is_Begin b'" and "\<forall>c \<in> set post. \<not> matching_End b c"
    and "perform_all X (pre @ b # post) gc = Inr gc'"
  shows "perform X b' gc' = Inl (Abort LockViolation)"
proof -
  from assms(4) obtain gc1 gc2 where "perform X b gc1 = Inr gc2"
    and post: "perform_all X post gc2 = Inr gc'"
    by (auto simp: perform_all_append seq_def split: sum.splits)
  with assms(1) have "comm_lock gc2 = held_for b" and held: "held_for b \<noteq> 0"
    by (auto dest: Begin_takes_lock)
  from lock_kept [OF assms(1) this(1) assms(3) post] held have "comm_lock gc' \<noteq> 0" by simp
  with assms(2) show ?thesis by (rule Begin_needs_idle)
qed

text \<open>
  Claim C1. In any sequence of calls on one communicator that has returned so far, if
  a Begin (\<^verbatim>\<open>BcastBegin\<close> or \<^verbatim>\<open>ReduceBegin\<close>) was made and its matching End has not
  been called since, whatever else was called, then calling \<^verbatim>\<open>BcastBegin\<close> or
  \<^verbatim>\<open>ReduceBegin\<close> is the fatal lock violation; in particular \<^verbatim>\<open>BcastBegin\<close> twice with
  no \<^verbatim>\<open>BcastEnd\<close> in between. On a communicator whose lock is not idle both Begins are
  fatal. A \<^verbatim>\<open>BcastBegin\<close> that returns started from an idle lock and leaves it at 1, a
  \<^verbatim>\<open>ReduceBegin\<close> at 2; \<^verbatim>\<open>BcastEnd\<close> returns a lock held at 1 to 0 and \<^verbatim>\<open>ReduceEnd\<close> a
  lock held at 2 to 0. A new communicator is idle, and after any sequence of calls on
  it the lock is 0, 1 or 2.
\<close>

theorem Begin_exclusive:
  "(is_Begin b \<and> is_Begin b' \<and> (\<forall>c \<in> set post. \<not> matching_End b c)
      \<and> perform_all X (pre @ b # post) gc = Inr gcs \<longrightarrow>
       perform X b' gcs = Inl (Abort LockViolation))
   \<and> (perform_all X (pre @ Call_BcastBegin ldata layout # post) gc = Inr gcs
      \<and> (\<forall>c \<in> set post. \<forall>l y. c \<noteq> Call_BcastEnd l y) \<longrightarrow>
       BcastBegin X ldata' layout' gcs = Inl (Abort LockViolation))
   \<and> (comm_lock gc \<noteq> 0 \<longrightarrow>
       BcastBegin X ldata layout gc = Inl (Abort LockViolation)
     \<and> ReduceBegin X ldata gc = Inl (Abort LockViolation))
   \<and> (BcastBegin X ldata layout gc = Inr gcb \<longrightarrow> comm_lock gc = 0 \<and> comm_lock gcb = 1)
   \<and> (ReduceBegin X ldata gc = Inr gcr \<longrightarrow> comm_lock gc = 0 \<and> comm_lock gcr = 2)
   \<and> (BcastEnd X ldata layout gc = Inr gce \<longrightarrow>
       comm_lock gce = (if comm_lock gc = 1 then 0 else comm_lock gc))
   \<and> (ReduceEnd X ldata layout Op gc = Inr gcf \<longrightarrow>
       comm_lock gcf = (if comm_lock gc = 2 then 0 else comm_lock gc))
   \<and> comm_lock (GroupCommunicator_new rest) = 0
   \<and> (perform_all X cs (GroupCommunicator_new rest) = Inr gcn \<longrightarrow> comm_lock gcn \<in> {0, 1, 2})"
proof (intro conjI impI)
  assume "is_Begin b \<and> is_Begin b' \<and> (\<forall>c \<in> set post. \<not> matching_End b c)
      \<and> perform_all X (pre @ b # post) gc = Inr gcs"
  then show "perform X b' gcs = Inl (Abort LockViolation)"
    by (blast intro: Begin_in_flight)
next
  assume a: "perform_all X (pre @ Call_BcastBegin ldata layout # post) gc = Inr gcs
      \<and> (\<forall>c \<in> set post. \<forall>l y. c \<noteq> Call_BcastEnd l y)"
  have "\<forall>c \<in> set post. \<not> matching_End (Call_BcastBegin ldata layout) c"
  proof
    fix c assume "c \<in> set post"
    with a have "\<forall>l y. c \<noteq> Call_BcastEnd l y" by blast
    then show "\<not> matching_End (Call_BcastBegin ldata layout) c" by (cases c) auto
  qed
  with a have "perform X (Call_BcastBegin ldata' layout') gcs = Inl (Abort LockViolation)"
    by (intro Begin_in_flight [where b = "Call_BcastBegin ldata layout" and post = post and pre = pre]) auto
  then show "BcastBegin X ldata' layout' gcs = Inl (Abort LockViolation)" by simp
next
  assume "perform_all X cs (GroupCommunicator_new rest) = Inr gcn"
  then show "comm_lock gcn \<in> {0, 1, 2}"
    by (rule perform_all_lock [rotated]) (simp add: GroupCommunicator_new_def)
qed (auto simp: BcastBegin_def BcastEnd_def ReduceBegin_def ReduceEnd_def seq_def
      GroupCommunicator_new_def split: if_splits sum.splits)

theorem Begin_exclusive_witness:
  "perform_all no_transfers [Call_BcastBegin () 0, Call_ReduceEnd () 0 ()] (GroupCommunicator_new ())
      = Inr \<lparr>comm_lock = 1\<rparr>
   \<and> perform_all no_transfers [Call_BcastBegin () 0, Call_ReduceEnd () 0 (), Call_BcastBegin () 0]
        (GroupCommunicator_new ()) = Inl (Abort LockViolation)
   \<and> perform_all no_transfers [Call_BcastBegin () 0, Call_BcastBegin () 0]
        (GroupCommunicator_new ()) = Inl (Abort LockViolation)
   \<and> ReduceBegin no_transfers () \<lparr>comm_lock = 1\<rparr> = Inl (Abort LockViolation)
   \<and> perform_all no_transfers [Call_BcastBegin () 0, Call_BcastEnd () 0, Call_ReduceBegin ()]
        (GroupCommunicator_new ()) = Inr \<lparr>comm_lock = 2\<rparr>"
proof -
  have s: "perform_all no_transfers ([] @ Call_BcastBegin () 0 # [Call_ReduceEnd () 0 ()])
        (GroupCommunicator_new ()) = Inr \<lparr>comm_lock = 1\<rparr>"
    by (simp add: BcastBegin_def ReduceEnd_def no_transfers_def seq_def GroupCommunicator_new_def)
  have hyp: "perform_all no_transfers ([] @ Call_BcastBegin () 0 # [Call_ReduceEnd () 0 ()])
        (GroupCommunicator_new ()) = Inr \<lparr>comm_lock = 1\<rparr>
      \<and> (\<forall>c \<in> set [Call_ReduceEnd () 0 () :: (unit, unit) gc_call]. \<forall>l y. c \<noteq> Call_BcastEnd l y)"
    using s by simp
  have again: "BcastBegin no_transfers () 0 \<lparr>comm_lock = 1\<rparr> = Inl (Abort LockViolation)"
    using hyp by (rule Begin_exclusive [THEN conjunct2, THEN conjunct1, rule_format])
  have hyp2: "is_Begin (Call_BcastBegin () 0 :: (unit, unit) gc_call)
      \<and> is_Begin (Call_ReduceBegin () :: (unit, unit) gc_call)
      \<and> (\<forall>c \<in> set [Call_ReduceEnd () 0 () :: (unit, unit) gc_call]. \<not> matching_End (Call_BcastBegin () 0) c)
      \<and> perform_all no_transfers ([] @ Call_BcastBegin () 0 # [Call_ReduceEnd () 0 ()])
           (GroupCommunicator_new ()) = Inr \<lparr>comm_lock = 1\<rparr>"
    using s by simp
  have red: "perform no_transfers (Call_ReduceBegin ()) \<lparr>comm_lock = 1\<rparr> = Inl (Abort LockViolation)"
    using hyp2 by (rule Begin_exclusive [THEN conjunct1, rule_format])
  have three: "perform_all no_transfers
        ([Call_BcastBegin () 0, Call_ReduceEnd () 0 ()] @ [Call_BcastBegin () 0])
        (GroupCommunicator_new ()) = Inl (Abort LockViolation)"
    unfolding perform_all_append using s again by (simp add: seq_def)
  have two: "perform_all no_transfers [Call_BcastBegin () 0, Call_BcastBegin () 0]
        (GroupCommunicator_new ()) = Inl (Abort LockViolation)"
    by (simp add: BcastBegin_def no_transfers_def seq_def GroupCommunicator_new_def)
  have last: "perform_all no_transfers [Call_BcastBegin () 0, Call_BcastEnd () 0, Call_ReduceBegin ()]
        (GroupCommunicator_new ()) = Inr \<lparr>comm_lock = 2\<rparr>"
    by (simp add: BcastBegin_def BcastEnd_def ReduceBegin_def no_transfers_def seq_def
        GroupCommunicator_new_def)
  from s three two red last show ?thesis by simp
qed

text \<open>
  Claim C5. Whatever the four split-phase functions do, the fused \<^verbatim>\<open>Bcast\<close> is
  \<^verbatim>\<open>BcastBegin\<close> followed by \<^verbatim>\<open>BcastEnd\<close> with the same arguments, and the fused
  \<^verbatim>\<open>Reduce\<close> is \<^verbatim>\<open>ReduceBegin\<close> followed by \<^verbatim>\<open>ReduceEnd\<close> with layout 0: the same
  result, the same state, and the same failure when a call does not return.
\<close>

theorem fused_is_Begin_then_End:
  "Bcast bcast_begin bcast_end ldata layout s
      = followed_by (bcast_begin ldata layout) (bcast_end ldata layout) s
   \<and> Reduce reduce_begin reduce_end ldata Op s
      = followed_by (reduce_begin ldata) (reduce_end ldata 0 Op) s"
  by (simp add: Bcast_def Reduce_def followed_by_def seq_def)

theorem fused_is_Begin_then_End_witness:
  "Bcast (BcastBegin no_transfers) (BcastEnd no_transfers) () 1 (GroupCommunicator_new ())
      = Inr \<lparr>comm_lock = 0\<rparr>
   \<and> Reduce (ReduceBegin no_transfers) (ReduceEnd no_transfers) () () \<lparr>comm_lock = 1\<rparr>
      = Inl (Abort LockViolation)"
  using fused_is_Begin_then_End [THEN conjunct1, of "BcastBegin no_transfers"
      "BcastEnd no_transfers" "()" 1 "GroupCommunicator_new ()"]
    fused_is_Begin_then_End [THEN conjunct2, of "ReduceBegin no_transfers"
      "ReduceEnd no_transfers" "()" "()" "\<lparr>comm_lock = 1\<rparr>"]
  by (simp add: followed_by_def BcastBegin_def BcastEnd_def ReduceBegin_def ReduceEnd_def
      no_transfers_def seq_def GroupCommunicator_new_def)

end
